theory Spec2Isabelle
  imports Main "HOL-Library.Word"
begin

section \<open>Go library functions used by the export code\<close>

text \<open>
  The export code of certshop manipulates paths with Go's \<^verbatim>\<open>path/filepath\<close> (on a
  Unix platform, separator \<^verbatim>\<open>/\<close>, no volume names) and lower-cases the format selector
  with \<^verbatim>\<open>strings.ToLower\<close>. Paths are byte strings.
\<close>

type_synonym bytes = "8 word list"

text \<open>\<^verbatim>\<open>strings.Split(p, "/")\<close>: the elements between separators (empty ones included).\<close>

fun splitSep :: "string \<Rightarrow> string list" where
  "splitSep [] = [[]]"
| "splitSep (c # cs) =
     (if c = CHR ''/'' then [] # splitSep cs
      else (case splitSep cs of [] \<Rightarrow> [[c]] | x # xs \<Rightarrow> (c # x) # xs))"

text \<open>\<^verbatim>\<open>strings.Join(elems, "/")\<close>.\<close>

fun joinSep :: "string list \<Rightarrow> string" where
  "joinSep [] = []"
| "joinSep [x] = x"
| "joinSep (x # y # ys) = x @ CHR ''/'' # joinSep (y # ys)"

text \<open>
  \<^verbatim>\<open>filepath.Clean\<close>: multiple separators collapse, every \<^verbatim>\<open>.\<close> element is dropped, an
  inner \<^verbatim>\<open>..\<close> element cancels the element before it (unless that is \<^verbatim>\<open>..\<close> as well), a
  \<^verbatim>\<open>..\<close> at the start of a rooted path is dropped, and the empty result is \<^verbatim>\<open>.\<close>. The
  elements kept so far are held as a stack, last element first.
\<close>

definition cleanStep :: "bool \<Rightarrow> string list \<Rightarrow> string \<Rightarrow> string list" where
  "cleanStep rooted st c =
     (if c = [] \<or> c = ''.'' then st
      else if c = ''..'' then
        (case st of
           [] \<Rightarrow> if rooted then [] else [''..'']
         | t # ts \<Rightarrow> if t = ''..'' then c # st else ts)
      else c # st)"

definition isRooted :: "string \<Rightarrow> bool" where
  "isRooted p = (case p of [] \<Rightarrow> False | c # _ \<Rightarrow> c = CHR ''/'')"

definition Clean :: "string \<Rightarrow> string" where
  "Clean p =
     (let st = foldl (cleanStep (isRooted p)) [] (splitSep p)
      in if isRooted p then CHR ''/'' # joinSep (rev st)
         else if st = [] then ''.''
         else joinSep (rev st))"

text \<open>
  \<^verbatim>\<open>filepath.Base\<close>: the last element of the path, after trailing separators are
  removed; \<^verbatim>\<open>.\<close> for the empty path, \<^verbatim>\<open>/\<close> for a path of separators only.
\<close>

definition Base :: "string \<Rightarrow> string" where
  "Base p =
     (if p = [] then ''.''
      else (let q = dropWhile (\<lambda>c. c = CHR ''/'') (rev p);
                b = rev (takeWhile (\<lambda>c. c \<noteq> CHR ''/'') q)
            in if b = [] then ''/'' else b))"

text \<open>
  \<^verbatim>\<open>filepath.Dir\<close>: everything up to and including the last separator, cleaned.
\<close>

definition Dir :: "string \<Rightarrow> string" where
  "Dir p = Clean (rev (dropWhile (\<lambda>c. c \<noteq> CHR ''/'') (rev p)))"

text \<open>
  \<^verbatim>\<open>filepath.Join\<close>: leading empty elements are skipped, the rest is joined with the
  separator and cleaned; the result is empty when every element is empty.
\<close>

definition Join :: "string list \<Rightarrow> string" where
  "Join elem =
     (case dropWhile (\<lambda>e. e = []) elem of
        [] \<Rightarrow> []
      | es \<Rightarrow> Clean (joinSep es))"

text \<open>
  \<^verbatim>\<open>strings.ToLower\<close> on ASCII letters; other bytes are left as they are. Go also maps
  letters outside ASCII and replaces invalid UTF-8, which never yields one of the ASCII
  characters of \<^verbatim>\<open>pem\<close> or \<^verbatim>\<open>p12\<close> from any other character but their upper case: the
  strings that lower-case to \<^verbatim>\<open>pem\<close> or \<^verbatim>\<open>p12\<close> are the same.
\<close>

definition lowerChar :: "char \<Rightarrow> char" where
  "lowerChar c =
     (case map_of (zip ''ABCDEFGHIJKLMNOPQRSTUVWXYZ'' ''abcdefghijklmnopqrstuvwxyz'') c of
        None \<Rightarrow> c
      | Some l \<Rightarrow> l)"

definition ToLower :: "string \<Rightarrow> string" where
  "ToLower s = map lowerChar s"

section \<open>The export request and the world the export runs in\<close>

text \<open>The struct \<^verbatim>\<open>exportFlags\<close> (the embedded \<^verbatim>\<open>flag.FlagSet\<close> is left out).\<close>

record exportFlags =
  path :: string
  exportCrt :: bool
  exportKey :: bool
  exportCA :: string
  exportFormat :: string
  passIn :: string
  passOut :: string

text \<open>
  Modelled from the spec: the constant \<^verbatim>\<open>nilString\<close> that the export code compares
  against has no declaration in the sources (\<^verbatim>\<open>certshop.go\<close> declares the exported
  \<^verbatim>\<open>NilString\<close>, the raw string of the four characters backslash, x, 0, 0, "used to
  determine whether user input to a flag was provided"). It is the reserved marker for
  "not supplied", distinct from the empty string; the value of \<^verbatim>\<open>NilString\<close> is taken.
  The properties below depend only on its being non-empty.
\<close>

definition nilString :: string where
  "nilString = CHR 0x5C # ''x00''"

text \<open>
  What a run of the program does to the outside is recorded as a trace of events, in
  order. \<^verbatim>\<open>Info\<close> is a line of \<^verbatim>\<open>InfoLog\<close> on standard error.
\<close>

datatype event =
    Info string
  | Stat string
  | ReadCert string
  | ReadKey string string
  | SinkOpen
  | SinkClose
  | WriteData bytes string nat
  | SaveKey bytes string string
  | TempCreate string
  | TempWrite string bytes
  | Remove string bool
  | RunOpenssl "string list"

type_synonym trace = "event list"

text \<open>The error values \<^verbatim>\<open>findFile\<close> returns.\<close>

datatype ferror =
    StatError string
  | IsDirectory string

text \<open>
  One constructor for each call of \<^verbatim>\<open>ErrorLog.Fatal\<close>/\<^verbatim>\<open>ErrorLog.Fatalf\<close>.
  \<^verbatim>\<open>ErrorLog\<close> is a \<^verbatim>\<open>log.Logger\<close>: its \<^verbatim>\<open>Fatal\<close> prints the line and calls
  \<^verbatim>\<open>os.Exit(1)\<close>, which ends the process at once; deferred calls are not run.
\<close>

datatype fatal =
    FailedToParse
  | FailedToFindCA ferror
  | PassOutRequired
  | FailedToCreateTemp
  | FailedToWriteTemp
  | FailedToRemoveTemp
  | OpensslError
  | CertReadError string
  | KeyReadError string

text \<open>
  Modelled from the spec: \<^verbatim>\<open>ReadCert\<close>, \<^verbatim>\<open>MarshalCert\<close>, \<^verbatim>\<open>ReadKey\<close>, \<^verbatim>\<open>SaveKey\<close>,
  \<^verbatim>\<open>newTgzWriter\<close> and the writer's \<^verbatim>\<open>writeData\<close> and \<^verbatim>\<open>close\<close> have no definition in
  the sources; what they answer is a parameter of the model, together with what the file
  system and the external \<^verbatim>\<open>openssl\<close> answer. A read that fails is fatal ("each file
  read that fails aborts the whole walk", "every error is fatal"): \<open>None\<close> below. The
  writer's calls are recorded as events.
  \<^item> \<open>osStat p\<close>: \<^verbatim>\<open>os.Stat(p)\<close>; \<open>None\<close> is an error, \<open>Some d\<close> gives \<^verbatim>\<open>IsDir()\<close>.
  \<^item> \<open>readCert p\<close>: the bytes of \<^verbatim>\<open>MarshalCert(ReadCert(p))\<close>.
  \<^item> \<open>readKeyFile p pw\<close>: the key material of \<^verbatim>\<open>ReadKey(p, pw)\<close>.
  \<^item> \<open>osTempFile\<close>: the name of the file \<^verbatim>\<open>ioutil.TempFile\<close> creates, \<open>None\<close> on error.
  \<^item> \<open>tmpWriteOK\<close>, \<open>osRemoveOK\<close>, \<open>opensslOK\<close>: whether \<^verbatim>\<open>tmpFile.Write\<close>,
    \<^verbatim>\<open>os.Remove\<close> and \<^verbatim>\<open>cmd.Run\<close> return no error.
\<close>

record world =
  osStat :: "string \<Rightarrow> bool option"
  readCert :: "string \<Rightarrow> bytes option"
  readKeyFile :: "string \<Rightarrow> string \<Rightarrow> bytes option"
  osTempFile :: "string option"
  tmpWriteOK :: bool
  osRemoveOK :: "string \<Rightarrow> bool"
  opensslOK :: "string list \<Rightarrow> bool"

text \<open>
  A step of the program either ends the process (\<open>Inl\<close>, a fatal error) or returns a
  value (\<open>Inr\<close>), and extends the trace; \<open>None\<close> is a step that never finishes.
\<close>

type_synonym 'a step = "((fatal + 'a) \<times> trace) option"

definition andThen :: "'a step \<Rightarrow> ('a \<Rightarrow> trace \<Rightarrow> 'b step) \<Rightarrow> 'b step" where
  "andThen m k =
     (case m of
        None \<Rightarrow> None
      | Some (Inl e, tr) \<Rightarrow> Some (Inl e, tr)
      | Some (Inr v, tr) \<Rightarrow> k v tr)"

text \<open>
  \<^verbatim>\<open>defer d\<close> followed by the rest of the function body: \<open>d\<close> runs when the body
  returns, and does not run when the body ends the process.
\<close>

definition withDefer :: "(trace \<Rightarrow> unit step) \<Rightarrow> unit step \<Rightarrow> unit step" where
  "withDefer d body =
     (case body of
        None \<Rightarrow> None
      | Some (Inl e, tr) \<Rightarrow> Some (Inl e, tr)
      | Some (Inr v, tr) \<Rightarrow> d tr)"

text \<open>Whether a file created by \<^verbatim>\<open>ioutil.TempFile\<close> exists after the events of a trace.\<close>

definition fileEvent :: "string \<Rightarrow> bool \<Rightarrow> event \<Rightarrow> bool" where
  "fileEvent n b e =
     (case e of
        TempCreate m \<Rightarrow> if m = n then True else b
      | Remove m ok \<Rightarrow> if m = n \<and> ok then False else b
      | _ \<Rightarrow> b)"

definition tmpExists :: "trace \<Rightarrow> string \<Rightarrow> bool" where
  "tmpExists tr n = foldl (fileEvent n) False tr"

section \<open>The export code\<close>

text \<open>
  The result of \<^verbatim>\<open>flag.FlagSet.Parse\<close> on the arguments: for each flag the value given
  on the command line (\<open>None\<close> when the flag is absent, so that the variable keeps the
  default it was registered with), whether parsing failed, and the remaining positional
  arguments \<^verbatim>\<open>fs.Args()\<close>.
\<close>

record parsedArgs =
  argExportCrt :: "bool option"
  argExportKey :: "bool option"
  argExportCA :: "string option"
  argExportFormat :: "string option"
  argPassIn :: "string option"
  argPassOut :: "string option"
  argExportAll :: "string option"
  parseFailed :: bool
  positional :: "string list"

definition flagValue :: "'a \<Rightarrow> 'a option \<Rightarrow> 'a" where
  "flagValue dflt given = (case given of None \<Rightarrow> dflt | Some v \<Rightarrow> v)"

definition parseExportFlags :: "parsedArgs \<Rightarrow> fatal + exportFlags" where
  "parseExportFlags a =
     (let fs = \<lparr> path = [],
                 exportCrt = flagValue False (argExportCrt a),
                 exportKey = flagValue False (argExportKey a),
                 exportCA = flagValue nilString (argExportCA a),
                 exportFormat = flagValue ''tgz'' (argExportFormat a),
                 passIn = flagValue nilString (argPassIn a),
                 passOut = flagValue nilString (argPassOut a) \<rparr>;
          exportAll = flagValue nilString (argExportAll a)
      in if parseFailed a then Inl FailedToParse
         else (case positional a of
                 [p] \<Rightarrow>
                   (let fs1 = fs\<lparr>path := Clean p\<rparr>
                    in if exportAll \<noteq> nilString then
                         (let fs2 = fs1\<lparr>exportCrt := True, exportKey := True\<rparr>
                          in if exportAll \<noteq> [] then Inr (fs2\<lparr>exportCA := exportAll\<rparr>)
                             else Inr fs2)
                       else Inr fs1)
               | _ \<Rightarrow> Inl FailedToParse))"

definition findFile :: "world \<Rightarrow> string \<Rightarrow> string \<Rightarrow> trace \<Rightarrow> (ferror + string) \<times> trace" where
  "findFile w path0 suffix tr =
     (let p = Clean path0; tr1 = tr @ [Stat p]
      in case osStat w p of
           None \<Rightarrow> (Inl (StatError p), tr1)
         | Some isDir \<Rightarrow>
             if isDir then
               (let p2 = Join [p, Base p @ suffix]; tr2 = tr1 @ [Stat p2]
                in case osStat w p2 of
                     None \<Rightarrow> (Inl (StatError p2), tr2)
                   | Some isDir2 \<Rightarrow>
                       if isDir2 then (Inl (IsDirectory p2), tr2) else (Inr p2, tr2))
             else (Inr p, tr1))"

text \<open>
  The loop of \<^verbatim>\<open>exportPEM\<close>:
  \<^verbatim>\<open>for certPath := flags.path; filepath.Base(certPath) != "."; certPath = filepath.Dir(certPath)\<close>.
\<close>

partial_function (option) pemWalk :: "world \<Rightarrow> string \<Rightarrow> bytes \<Rightarrow> trace \<Rightarrow> bytes step" where
  "pemWalk w certPath data tr =
     (if Base certPath \<noteq> ''.'' then
        (case readCert w (Join [certPath, Base certPath @ ''.pem'']) of
           None \<Rightarrow>
             Some (Inl (CertReadError (Join [certPath, Base certPath @ ''.pem''])),
                   tr @ [ReadCert (Join [certPath, Base certPath @ ''.pem''])])
         | Some c \<Rightarrow>
             pemWalk w (Dir certPath) (data @ c)
               (tr @ [ReadCert (Join [certPath, Base certPath @ ''.pem''])]))
      else Some (Inr data, tr))"

declare pemWalk.simps [code]

text \<open>
  The loop of \<^verbatim>\<open>exportP12\<close>:
  \<^verbatim>\<open>for certPath := flags.path; certPath != "."; certPath = filepath.Dir(certPath)\<close>.
\<close>

partial_function (option) p12Walk :: "world \<Rightarrow> string \<Rightarrow> bytes \<Rightarrow> trace \<Rightarrow> bytes step" where
  "p12Walk w certPath data tr =
     (if certPath \<noteq> ''.'' then
        (case readCert w (Join [certPath, Base certPath @ ''.pem'']) of
           None \<Rightarrow>
             Some (Inl (CertReadError (Join [certPath, Base certPath @ ''.pem''])),
                   tr @ [ReadCert (Join [certPath, Base certPath @ ''.pem''])])
         | Some c \<Rightarrow>
             p12Walk w (Dir certPath) (data @ c)
               (tr @ [ReadCert (Join [certPath, Base certPath @ ''.pem''])]))
      else Some (Inr data, tr))"

declare p12Walk.simps [code]

text \<open>One \<^verbatim>\<open>MarshalCert(ReadCert(file))\<close>.\<close>

definition readCertStep :: "world \<Rightarrow> string \<Rightarrow> trace \<Rightarrow> bytes step" where
  "readCertStep w file tr =
     (case readCert w file of
        None \<Rightarrow> Some (Inl (CertReadError file), tr @ [ReadCert file])
      | Some c \<Rightarrow> Some (Inr c, tr @ [ReadCert file]))"

text \<open>\<^verbatim>\<open>exportPEM\<close>; the file mode \<^verbatim>\<open>0644\<close> is 420.\<close>

definition exportPEM :: "world \<Rightarrow> exportFlags \<Rightarrow> trace \<Rightarrow> unit step" where
  "exportPEM w flags tr =
     andThen
       (if exportCA flags \<noteq> [] then
          andThen (readCertStep w (exportCA flags) tr)
            (\<lambda>c tr1. Some (Inr (), tr1 @ [WriteData c (Join [Base (path flags), ''ca.pem'']) 420]))
        else Some (Inr (), tr))
       (\<lambda>_ tr1.
          andThen
            (if exportCrt flags then
               andThen (pemWalk w (path flags) [] tr1)
                 (\<lambda>data tr2.
                    Some (Inr (), tr2 @ [WriteData data (Join [Base (path flags), ''cert.pem'']) 420]))
             else Some (Inr (), tr1))
            (\<lambda>_ tr2.
               if exportKey flags then
                 (case osStat w (Join [path flags, Base (path flags) @ ''-key.pem'']) of
                    Some _ \<Rightarrow>
                      (case readKeyFile w (Join [path flags, Base (path flags) @ ''-key.pem''])
                              (passIn flags) of
                         None \<Rightarrow>
                           Some (Inl (KeyReadError (Join [path flags, Base (path flags) @ ''-key.pem''])),
                                 tr2 @ [Stat (Join [path flags, Base (path flags) @ ''-key.pem'']),
                                        ReadKey (Join [path flags, Base (path flags) @ ''-key.pem''])
                                          (passIn flags)])
                       | Some k \<Rightarrow>
                           Some (Inr (),
                                 tr2 @ [Stat (Join [path flags, Base (path flags) @ ''-key.pem'']),
                                        ReadKey (Join [path flags, Base (path flags) @ ''-key.pem''])
                                          (passIn flags),
                                        SaveKey k (passOut flags) (Join [Base (path flags), ''key.pem''])]))
                  | None \<Rightarrow>
                      Some (Inr (), tr2 @ [Stat (Join [path flags, Base (path flags) @ ''-key.pem''])]))
               else Some (Inr (), tr2)))"

text \<open>The argument list of \<^verbatim>\<open>exportP12\<close> before \<^verbatim>\<open>-in\<close> is appended.\<close>

definition p12Args :: "exportFlags \<Rightarrow> string list" where
  "p12Args flags =
     [''pkcs12'', ''-export'', ''-name'', Base (path flags),
      ''-inkey'', Join [path flags, Base (path flags) @ ''-key.pem'']]
     @ (if passIn flags \<noteq> nilString then [''-passin'', ''pass:'' @ passIn flags] else [])
     @ [''-aes256'', ''-passout'', ''pass:'' @ passOut flags]"

text \<open>
  The deferred function of \<^verbatim>\<open>exportP12\<close>: remove the temporary file, fatal when that
  fails.
\<close>

definition removeTemp :: "world \<Rightarrow> string \<Rightarrow> trace \<Rightarrow> unit step" where
  "removeTemp w tmp tr =
     (if osRemoveOK w tmp then Some (Inr (), tr @ [Remove tmp True])
      else Some (Inl FailedToRemoveTemp, tr @ [Remove tmp False]))"

definition exportP12 :: "world \<Rightarrow> exportFlags \<Rightarrow> trace \<Rightarrow> unit step" where
  "exportP12 w flags tr =
     (if passOut flags = nilString then
        Some (Inl PassOutRequired, tr @ [Info ''Running openssl to create p12 file''])
      else
        andThen (p12Walk w (path flags) [] (tr @ [Info ''Running openssl to create p12 file'']))
          (\<lambda>chain tr1.
             andThen
               (if exportCA flags \<noteq> [] then
                  andThen
                    (readCertStep w (Join [exportCA flags, Base (exportCA flags) @ ''.pem'']) tr1)
                    (\<lambda>c tr2. Some (Inr (chain @ c), tr2))
                else Some (Inr chain, tr1))
               (\<lambda>data tr2.
                  (case osTempFile w of
                     None \<Rightarrow> Some (Inl FailedToCreateTemp, tr2)
                   | Some tmp \<Rightarrow>
                       if \<not> tmpWriteOK w then
                         Some (Inl FailedToWriteTemp, tr2 @ [TempCreate tmp, TempWrite tmp data])
                       else
                         withDefer (removeTemp w tmp)
                           (if opensslOK w (p12Args flags @ [''-in'', tmp]) then
                              Some (Inr (),
                                    tr2 @ [TempCreate tmp, TempWrite tmp data,
                                           RunOpenssl (p12Args flags @ [''-in'', tmp])])
                            else
                              Some (Inl OpensslError,
                                    tr2 @ [TempCreate tmp, TempWrite tmp data,
                                           RunOpenssl (p12Args flags @ [''-in'', tmp])]))))))"

text \<open>\<^verbatim>\<open>exportCertificate\<close>: the deferred call closes the writer.\<close>

definition closeSink :: "trace \<Rightarrow> unit step" where
  "closeSink tr = Some (Inr (), tr @ [SinkClose])"

definition encode :: "world \<Rightarrow> exportFlags \<Rightarrow> trace \<Rightarrow> unit step" where
  "encode w flags tr =
     (if ToLower (exportFormat flags) = ''pem'' then exportPEM w flags tr
      else if ToLower (exportFormat flags) = ''p12'' then exportP12 w flags tr
      else Some (Inr (), tr))"

definition exportCertificate :: "world \<Rightarrow> exportFlags \<Rightarrow> trace \<Rightarrow> unit step" where
  "exportCertificate w flags tr =
     andThen
       (if exportCA flags \<noteq> [] then
          (case findFile w (exportCA flags) ''.pem'' (tr @ [Info (''Exporting '' @ path flags)]) of
             (Inl err, tr1) \<Rightarrow> Some (Inl (FailedToFindCA err), tr1)
           | (Inr p, tr1) \<Rightarrow> Some (Inr (flags\<lparr>exportCA := p\<rparr>), tr1))
        else Some (Inr flags, tr @ [Info (''Exporting '' @ path flags)]))
       (\<lambda>flags1 tr1.
          withDefer closeSink
            (andThen (encode w flags1 (tr1 @ [SinkOpen]))
               (\<lambda>_ tr2.
                  Some (Inr (), tr2 @ [Info (''Finished Exporting Certificate '' @ path flags1)]))))"

section \<open>Notions used to state the properties\<close>

subsection \<open>Cleaned paths\<close>

text \<open>
  An element that \<^verbatim>\<open>Clean\<close> keeps: not empty, not \<^verbatim>\<open>.\<close>, without separator. A stack
  of kept elements (last element first) is well formed when a \<^verbatim>\<open>..\<close> element has only
  \<^verbatim>\<open>..\<close> elements before it in the path, and none at all in a rooted path.
\<close>

definition goodElem :: "string \<Rightarrow> bool" where
  "goodElem c = (c \<noteq> [] \<and> c \<noteq> ''.'' \<and> CHR ''/'' \<notin> set c)"

fun goodStack :: "bool \<Rightarrow> string list \<Rightarrow> bool" where
  "goodStack rooted [] = True"
| "goodStack rooted (t # ts) =
     (goodElem t \<and> (t = ''..'' \<longrightarrow> \<not> rooted \<and> (\<forall>x\<in>set ts. x = ''..'')) \<and> goodStack rooted ts)"

definition render :: "bool \<Rightarrow> string list \<Rightarrow> string" where
  "render r st =
     (if r then CHR ''/'' # joinSep (rev st) else if st = [] then ''.'' else joinSep (rev st))"

text \<open>The elements of a cleaned relative path other than \<^verbatim>\<open>.\<close>.\<close>

definition relPath :: "string list \<Rightarrow> bool" where
  "relPath cs = (cs \<noteq> [] \<and> goodStack False (rev cs))"

subsection \<open>The certificate chain of a target, as the specification describes it\<close>

text \<open>
  The specification's chain: for the node with elements \<open>e\<^sub>1, \<dots>, e\<^sub>n\<close> the certificate
  file is \<open>e\<^sub>1/\<dots>/e\<^sub>n/e\<^sub>n.pem\<close>; the chain lists the file of the target first, then
  that of its parent \<open>e\<^sub>1, \<dots>, e\<^sub>n\<^sub>-\<^sub>1\<close>, and so on up to \<open>e\<^sub>1\<close>. \<open>chainUp\<close> takes the
  elements last first. The working directory \<^verbatim>\<open>.\<close> has the empty chain.
\<close>

primrec chainUp :: "string list \<Rightarrow> string list" where
  "chainUp [] = []"
| "chainUp (c # up) = joinSep (rev up @ [c, c @ ''.pem'']) # chainUp up"

definition chainFiles :: "string list \<Rightarrow> string list" where
  "chainFiles cs = chainUp (rev cs)"

definition chainOf :: "string \<Rightarrow> string list" where
  "chainOf p = (if p = ''.'' then [] else chainFiles (splitSep p))"

text \<open>
  Reading a given list of certificate files in order and appending their bytes; the first
  read that fails is fatal. This is a total function: it always finishes.
\<close>

fun readAll :: "world \<Rightarrow> string list \<Rightarrow> bytes \<Rightarrow> trace \<Rightarrow> bytes step" where
  "readAll w [] data tr = Some (Inr data, tr)"
| "readAll w (file # files) data tr =
     (case readCert w file of
        None \<Rightarrow> Some (Inl (CertReadError file), tr @ [ReadCert file])
      | Some c \<Rightarrow> readAll w files (data @ c) (tr @ [ReadCert file]))"

definition certBytes :: "world \<Rightarrow> string \<Rightarrow> bytes" where
  "certBytes w file = (case readCert w file of None \<Rightarrow> [] | Some c \<Rightarrow> c)"

subsection \<open>Queries on traces\<close>

text \<open>The data of the archive entries written under a given name, in order.\<close>

fun entryData :: "string \<Rightarrow> event \<Rightarrow> bytes list" where
  "entryData n (WriteData d m mode) = (if m = n then [d] else [])"
| "entryData n _ = []"

definition entriesNamed :: "trace \<Rightarrow> string \<Rightarrow> bytes list" where
  "entriesNamed tr n = concat (map (entryData n) tr)"



subsection \<open>A concrete tree\<close>

text \<open>
  The tree of the specification's scenario, below the working directory:
  \<^verbatim>\<open>root/root.pem\<close>, \<^verbatim>\<open>root/intermediate/intermediate.pem\<close>,
  \<^verbatim>\<open>root/intermediate/leaf/leaf.pem\<close>, and an external CA in \<^verbatim>\<open>ca/ca.pem\<close>. Nothing else
  exists. The bytes of the certificates are \<open>[1]\<close>, \<open>[2]\<close>, \<open>[3]\<close> and \<open>[9]\<close>.
\<close>

definition treeStat :: "string \<Rightarrow> bool option" where
  "treeStat p =
     (if p \<in> {''root'', ''root/intermediate'', ''root/intermediate/leaf'', ''ca'',
               ''./ca''} then Some True
      else if p \<in> {''root/root.pem'', ''root/intermediate/intermediate.pem'',
               ''root/intermediate/leaf/leaf.pem'', ''ca/ca.pem'', ''./ca/ca.pem''} then Some False
      else None)"

definition treeCert :: "string \<Rightarrow> bytes option" where
  "treeCert p =
     (if p = ''root/intermediate/leaf/leaf.pem'' then Some [1]
      else if p = ''root/intermediate/intermediate.pem'' then Some [2]
      else if p = ''root/root.pem'' then Some [3]
      else if p = ''ca/ca.pem'' \<or> p = ''./ca/ca.pem'' then Some [9]
      else None)"

definition treeWorld :: world where
  "treeWorld =
     \<lparr> osStat = treeStat,
       readCert = treeCert,
       readKeyFile = (\<lambda>p pw. None),
       osTempFile = Some ''/tmp/certshop123'',
       tmpWriteOK = True,
       osRemoveOK = (\<lambda>p. True),
       opensslOK = (\<lambda>args. True) \<rparr>"

text \<open>The same tree when \<^verbatim>\<open>openssl\<close> fails, and when the temporary file cannot be written.\<close>

definition opensslFails :: world where
  "opensslFails = treeWorld\<lparr>opensslOK := (\<lambda>args. False)\<rparr>"

definition writeFails :: world where
  "writeFails = treeWorld\<lparr>tmpWriteOK := False\<rparr>"

text \<open>A file system whose root directory holds a readable \<^verbatim>\<open>/.pem\<close>.\<close>

definition rootWorld :: world where
  "rootWorld = treeWorld\<lparr>readCert := (\<lambda>p. if p = ''/.pem'' then Some [7] else None)\<rparr>"

text \<open>
  A file system with the rooted node \<^verbatim>\<open>/a\<close>: \<^verbatim>\<open>/a/a.pem\<close> and \<^verbatim>\<open>/.pem\<close> are readable
  certificates.
\<close>

definition rootedWorld :: world where
  "rootedWorld =
     treeWorld\<lparr>readCert := (\<lambda>p. if p = ''/a/a.pem'' then Some [1]
                               else if p = ''/.pem'' then Some [7] else None)\<rparr>"

text \<open>The tree when the file \<^verbatim>\<open>ca/ca.pem\<close> exists but does not hold a certificate.\<close>

definition badCAWorld :: world where
  "badCAWorld = treeWorld\<lparr>readCert := (\<lambda>p. if p = ''ca/ca.pem'' then None else treeCert p)\<rparr>"

text \<open>The same tree with one more file, in the working directory, named like \<^verbatim>\<open>nilString\<close>.\<close>

definition sentinelWorld :: world where
  "sentinelWorld =
     treeWorld\<lparr>osStat := (\<lambda>p. if p = nilString then Some False else treeStat p),
               readCert := (\<lambda>p. if p = nilString then Some [9] else treeCert p)\<rparr>"

text \<open>
  Requests for the leaf of the tree. \<open>leafArgs\<close> is the command line
  \<^verbatim>\<open>export -export-crt root/intermediate/leaf\<close>.
\<close>

definition leafArgs :: parsedArgs where
  "leafArgs =
     \<lparr> argExportCrt = Some True, argExportKey = None, argExportCA = None,
       argExportFormat = None, argPassIn = None, argPassOut = None, argExportAll = None,
       parseFailed = False, positional = [''root/intermediate/leaf''] \<rparr>"

definition leafPEM :: exportFlags where
  "leafPEM =
     \<lparr> path = ''root/intermediate/leaf'', exportCrt = True, exportKey = False,
       exportCA = [], exportFormat = ''pem'', passIn = nilString, passOut = nilString \<rparr>"

definition leafP12 :: exportFlags where
  "leafP12 =
     \<lparr> path = ''root/intermediate/leaf'', exportCrt = True, exportKey = True,
       exportCA = [], exportFormat = ''p12'', passIn = nilString, passOut = ''secret2'' \<rparr>"

section \<open>Facts about the path functions\<close>

text \<open>The examples of the documentation of \<^verbatim>\<open>path/filepath\<close>.\<close>

lemma Clean_examples:
  "Clean ''a/c'' = ''a/c''" "Clean ''a//c'' = ''a/c''" "Clean ''a/c/.'' = ''a/c''"
  "Clean ''a/c/b/..'' = ''a/c''" "Clean ''/../a/c'' = ''/a/c''"
  "Clean ''/../a/b/../././/c'' = ''/a/c''" "Clean [] = ''.''"
  by code_simp+

lemma Base_examples:
  "Base ''/foo/bar/baz.js'' = ''baz.js''" "Base ''/foo/bar/baz/'' = ''baz''"
  "Base ''dev.txt'' = ''dev.txt''" "Base ''../todo.txt'' = ''todo.txt''" "Base ''..'' = ''..''"
  "Base ''.'' = ''.''" "Base ''/'' = ''/''" "Base [] = ''.''"
  by code_simp+

lemma Dir_examples:
  "Dir ''/foo/bar/baz.js'' = ''/foo/bar''" "Dir ''/foo/bar/baz/'' = ''/foo/bar/baz''"
  "Dir ''/dirty//path///'' = ''/dirty/path''" "Dir ''dev.txt'' = ''.''"
  "Dir ''../todo.txt'' = ''..''" "Dir ''..'' = ''.''" "Dir ''.'' = ''.''" "Dir ''/'' = ''/''"
  "Dir [] = ''.''"
  by code_simp+

lemma Join_examples:
  "Join [''a'', ''b'', ''c''] = ''a/b/c''" "Join [''a'', ''b/c''] = ''a/b/c''"
  "Join [''a/b'', ''/c''] = ''a/b/c''" "Join [''a/b'', ''../../../xyz''] = ''../xyz''"
  "Join [[], []] = []" "Join [[], ''a''] = ''a''"
  by code_simp+

lemma splitSep_not_Nil: "splitSep p \<noteq> []"
  by (induction p) (auto split: list.splits)

lemma splitSep_append:
  "CHR ''/'' \<notin> set c \<Longrightarrow> splitSep (c @ r) = (c @ hd (splitSep r)) # tl (splitSep r)"
proof (induction c)
  case Nil
  then show ?case using splitSep_not_Nil [of r] by (cases "splitSep r") auto
next
  case (Cons a c)
  then show ?case by (auto split: list.splits)
qed

lemma splitSep_plain: "CHR ''/'' \<notin> set c \<Longrightarrow> splitSep c = [c]"
  using splitSep_append [of c "[]"] by simp

lemma splitSep_sep: "CHR ''/'' \<notin> set c \<Longrightarrow> splitSep (c @ CHR ''/'' # r) = c # splitSep r"
  using splitSep_append [of c "CHR ''/'' # r"] by simp

lemma splitSep_joinSep:
  "cs \<noteq> [] \<Longrightarrow> \<forall>c\<in>set cs. CHR ''/'' \<notin> set c \<Longrightarrow> splitSep (joinSep cs) = cs"
proof (induction cs rule: joinSep.induct)
  case 1
  then show ?case by simp
next
  case (2 x)
  then show ?case by (simp add: splitSep_plain)
next
  case (3 x y ys)
  then show ?case by (simp add: splitSep_sep)
qed

lemma splitSep_elems: "\<forall>c\<in>set (splitSep p). CHR ''/'' \<notin> set c"
  by (induction p) (auto split: list.splits)

lemma joinSep_snoc: "joinSep (cs @ [c]) = (if cs = [] then c else joinSep cs @ CHR ''/'' # c)"
  by (induction cs rule: joinSep.induct) auto

lemma goodStack_step:
  assumes "goodStack r st" "CHR ''/'' \<notin> set c"
  shows "goodStack r (cleanStep r st c)"
proof -
  consider (skip) "c = [] \<or> c = ''.''" | (up) "c = ''..''" | (name) "c \<noteq> []" "c \<noteq> ''.''" "c \<noteq> ''..''"
    by blast
  then show ?thesis
  proof cases
    case skip
    then have "cleanStep r st c = st" unfolding cleanStep_def by presburger
    with assms show ?thesis by simp
  next
    case up
    show ?thesis
    proof (cases st)
      case Nil
      with up show ?thesis by (simp add: cleanStep_def goodElem_def)
    next
      case (Cons t ts)
      show ?thesis
      proof (cases "t = ''..''")
        case True
        with up Cons have "cleanStep r st c = ''..'' # ''..'' # ts" by (simp add: cleanStep_def)
        with assms(1) Cons True show ?thesis by (auto simp: goodElem_def)
      next
        case False
        with up Cons have "cleanStep r st c = ts" by (simp add: cleanStep_def)
        with assms(1) Cons show ?thesis by simp
      qed
    qed
  next
    case name
    then have "cleanStep r st c = c # st" unfolding cleanStep_def by presburger
    with assms name show ?thesis by (simp add: goodElem_def)
  qed
qed

lemma goodStack_foldl:
  "goodStack r st \<Longrightarrow> \<forall>c\<in>set cs. CHR ''/'' \<notin> set c \<Longrightarrow> goodStack r (foldl (cleanStep r) st cs)"
  by (induction cs arbitrary: st) (auto simp: goodStack_step)

lemma refold: "goodStack r st \<Longrightarrow> foldl (cleanStep r) [] (rev st) = st"
proof (induction st)
  case Nil
  then show ?case by simp
next
  case (Cons t ts)
  then have "foldl (cleanStep r) [] (rev ts) = ts" by simp
  then have "foldl (cleanStep r) [] (rev (t # ts)) = cleanStep r ts t" by simp
  also have "\<dots> = t # ts"
  proof (cases "t = ''..''")
    case True
    with Cons.prems have all: "\<forall>x\<in>set ts. x = ''..''" by simp
    show ?thesis
    proof (cases ts)
      case Nil
      with True Cons.prems show ?thesis by (simp add: cleanStep_def)
    next
      case (Cons u us)
      with all have "u = ''..''" by simp
      with True Cons show ?thesis by (simp add: cleanStep_def)
    qed
  next
    case False
    moreover from Cons.prems have "t \<noteq> []" "t \<noteq> ''.''" by (simp_all add: goodElem_def)
    ultimately show ?thesis unfolding cleanStep_def by presburger
  qed
  finally show ?case .
qed

lemma Clean_render_eq: "Clean p = render (isRooted p) (foldl (cleanStep (isRooted p)) [] (splitSep p))"
  by (simp add: Clean_def render_def Let_def)

lemma goodStack_elems: "goodStack r st \<Longrightarrow> \<forall>c\<in>set st. goodElem c"
  by (induction st) auto

lemma joinSep_hd: "cs \<noteq> [] \<Longrightarrow> hd cs \<noteq> [] \<Longrightarrow> joinSep cs \<noteq> [] \<and> hd (joinSep cs) = hd (hd cs)"
  by (induction cs rule: joinSep.induct) auto

lemma isRooted_joinSep:
  assumes "cs \<noteq> []" "\<forall>c\<in>set cs. goodElem c"
  shows "\<not> isRooted (joinSep cs)"
proof -
  have h: "hd cs \<noteq> []" "CHR ''/'' \<notin> set (hd cs)" using assms by (auto simp: goodElem_def)
  then have "hd (hd cs) \<noteq> CHR ''/''" by (cases "hd cs") auto
  with joinSep_hd [OF assms(1) h(1)] show ?thesis
    by (cases "joinSep cs") (auto simp: isRooted_def)
qed

lemma Clean_render:
  assumes "goodStack r st"
  shows "Clean (render r st) = render r st"
proof -
  have el: "\<forall>c\<in>set (rev st). goodElem c" using goodStack_elems [OF assms] by simp
  then have ns: "\<forall>c\<in>set (rev st). CHR ''/'' \<notin> set c" by (simp add: goodElem_def)
  show ?thesis
  proof (cases r)
    case True
    have root: "isRooted (CHR ''/'' # joinSep (rev st))" by (simp add: isRooted_def)
    show ?thesis
    proof (cases "st = []")
      case True
      with \<open>r\<close> show ?thesis by (simp add: render_def Clean_def isRooted_def cleanStep_def)
    next
      case False
      then have "splitSep (joinSep (rev st)) = rev st" using ns by (simp add: splitSep_joinSep)
      then have "foldl (cleanStep True) [] (splitSep (CHR ''/'' # joinSep (rev st))) = st"
        using refold [OF assms] \<open>r\<close> by (simp add: cleanStep_def)
      with \<open>r\<close> root show ?thesis by (simp add: render_def Clean_def)
    qed
  next
    case False
    show ?thesis
    proof (cases "st = []")
      case True
      with \<open>\<not> r\<close> show ?thesis by (simp add: render_def Clean_def isRooted_def cleanStep_def)
    next
      case ne: False
      then have nr: "\<not> isRooted (joinSep (rev st))" using el by (simp add: isRooted_joinSep)
      have "splitSep (joinSep (rev st)) = rev st" using ne ns by (simp add: splitSep_joinSep)
      then have "foldl (cleanStep False) [] (splitSep (joinSep (rev st))) = st"
        using refold [OF assms] \<open>\<not> r\<close> by simp
      with \<open>\<not> r\<close> ne nr show ?thesis by (simp add: render_def Clean_def)
    qed
  qed
qed

lemma Clean_idem: "Clean (Clean p) = Clean p"
proof -
  have "goodStack (isRooted p) (foldl (cleanStep (isRooted p)) [] (splitSep p))"
    using goodStack_foldl [of "isRooted p" "[]" "splitSep p"] splitSep_elems by simp
  then have "Clean (render (isRooted p) (foldl (cleanStep (isRooted p)) [] (splitSep p)))
      = render (isRooted p) (foldl (cleanStep (isRooted p)) [] (splitSep p))"
    by (rule Clean_render)
  then show ?thesis by (simp only: Clean_render_eq [of p])
qed

lemma render_not_Nil: "goodStack r st \<Longrightarrow> render r st \<noteq> []"
  using joinSep_hd [of "rev st"] goodStack_elems [of r st]
  by (cases "st = []") (auto simp: render_def goodElem_def hd_rev)

lemma Clean_not_Nil: "Clean p \<noteq> []"
  using goodStack_foldl [of "isRooted p" "[]" "splitSep p"] splitSep_elems
  by (simp add: Clean_render_eq render_not_Nil)

lemma relPath_elems: "relPath cs \<Longrightarrow> \<forall>c\<in>set cs. goodElem c"
  using goodStack_elems [of False "rev cs"] by (simp add: relPath_def)

lemma relPath_butlast: "relPath (cs @ [c]) \<Longrightarrow> cs \<noteq> [] \<Longrightarrow> relPath cs"
  by (simp add: relPath_def)

lemma Clean_joinSep: "relPath cs \<Longrightarrow> Clean (joinSep cs) = joinSep cs"
  using Clean_render [of False "rev cs"] by (simp add: relPath_def render_def)

lemma joinSep_splitSep: "joinSep (splitSep p) = p"
proof (induction p)
  case Nil
  then show ?case by simp
next
  case (Cons a p)
  show ?case
  proof (cases "splitSep p")
    case Nil
    then show ?thesis using splitSep_not_Nil by simp
  next
    case (Cons x xs)
    with Cons.IH show ?thesis by (cases xs) auto
  qed
qed

lemma clean_relPath:
  assumes "Clean p = p" "\<not> isRooted p" "p \<noteq> ''.''"
  shows "relPath (splitSep p)"
proof -
  define st where "st = foldl (cleanStep False) [] (splitSep p)"
  have g: "goodStack False st"
    unfolding st_def using goodStack_foldl [of False "[]" "splitSep p"] splitSep_elems by simp
  have "Clean p = render False st" using assms(2) by (simp add: Clean_render_eq st_def)
  then have p: "p = render False st" using assms(1) by simp
  with assms(3) have ne: "st \<noteq> []" by (auto simp: render_def)
  with p have pj: "p = joinSep (rev st)" by (simp add: render_def)
  have "\<forall>c\<in>set (rev st). CHR ''/'' \<notin> set c"
    using goodStack_elems [OF g] by (simp add: goodElem_def)
  with ne have "splitSep (joinSep (rev st)) = rev st" by (simp add: splitSep_joinSep)
  with pj have sp: "splitSep p = rev st" by simp
  have "relPath (rev st)" using g ne by (simp add: relPath_def)
  then show ?thesis by (simp add: sp)
qed

lemma takeWhile_noSep:
  "CHR ''/'' \<notin> set r \<Longrightarrow> takeWhile (\<lambda>x. x \<noteq> CHR ''/'') (r @ CHR ''/'' # z) = r"
  by (induction r) auto

lemma takeWhile_noSep_all:
  "CHR ''/'' \<notin> set r \<Longrightarrow> takeWhile (\<lambda>x. x \<noteq> CHR ''/'') r = r"
  by (induction r) auto

lemma dropWhile_noSep:
  "CHR ''/'' \<notin> set r \<Longrightarrow>
   dropWhile (\<lambda>x. x \<noteq> CHR ''/'') (r @ z) = dropWhile (\<lambda>x. x \<noteq> CHR ''/'') z"
  by (induction r) auto

lemma dropWhile_noSep_all:
  "CHR ''/'' \<notin> set r \<Longrightarrow> dropWhile (\<lambda>x. x \<noteq> CHR ''/'') r = []"
  by (induction r) auto

lemma Base_snoc:
  assumes "goodElem c"
  shows "Base (joinSep (cs @ [c])) = c"
proof -
  define p where "p = joinSep (cs @ [c])"
  have cne: "c \<noteq> []" and ns: "CHR ''/'' \<notin> set (rev c)"
    using assms by (simp_all add: goodElem_def)
  then obtain a r where c: "rev c = a # r" "a \<noteq> CHR ''/''"
    by (cases "rev c") auto
  have pne: "p \<noteq> []" using cne by (simp add: p_def joinSep_snoc)
  have "dropWhile (\<lambda>x. x = CHR ''/'') (rev p) = rev p"
    using c by (simp add: p_def joinSep_snoc)
  moreover have "takeWhile (\<lambda>x. x \<noteq> CHR ''/'') (rev p) = rev c"
  proof (cases "cs = []")
    case True
    then have "rev p = rev c" by (simp add: p_def)
    then show ?thesis using takeWhile_noSep_all [OF ns] by simp
  next
    case False
    then have "rev p = rev c @ CHR ''/'' # rev (joinSep cs)" by (simp add: p_def joinSep_snoc)
    then show ?thesis using takeWhile_noSep [OF ns] by simp
  qed
  ultimately have "Base p = c" using pne cne by (simp add: Base_def)
  then show ?thesis by (simp add: p_def)
qed

lemma Clean_Nil: "Clean [] = ''.''"
  by (simp add: Clean_def isRooted_def cleanStep_def)

lemma Dir_snoc:
  assumes "relPath (cs @ [c])"
  shows "Dir (joinSep (cs @ [c])) = (if cs = [] then ''.'' else joinSep cs)"
proof -
  have gc: "goodElem c" using relPath_elems [OF assms] by simp
  then have ns: "CHR ''/'' \<notin> set (rev c)" by (simp add: goodElem_def)
  show ?thesis
  proof (cases "cs = []")
    case True
    have dw: "dropWhile (\<lambda>x. x \<noteq> CHR ''/'') (rev c) = []"
      using ns by (rule dropWhile_noSep_all)
    have "Dir c = Clean []" unfolding Dir_def dw by simp
    with True show ?thesis by (simp add: Clean_Nil)
  next
    case False
    then have rp: "relPath cs" using assms by (rule relPath_butlast [rotated])
    have el: "\<forall>x\<in>set (cs @ [[]]). CHR ''/'' \<notin> set x"
      using relPath_elems [OF rp] by (auto simp: goodElem_def)
    have "rev (joinSep (cs @ [c])) = rev c @ CHR ''/'' # rev (joinSep cs)"
      using False by (simp add: joinSep_snoc)
    then have "dropWhile (\<lambda>x. x \<noteq> CHR ''/'') (rev (joinSep (cs @ [c]))) = CHR ''/'' # rev (joinSep cs)"
      using dropWhile_noSep [OF ns, of "CHR ''/'' # rev (joinSep cs)"] by simp
    then have "Dir (joinSep (cs @ [c])) = Clean (joinSep cs @ ''/'')"
      by (simp add: Dir_def)
    also have "joinSep cs @ ''/'' = joinSep (cs @ [[]])" using False by (simp add: joinSep_snoc)
    also have "Clean (joinSep (cs @ [[]])) = joinSep cs"
    proof -
      have sp: "splitSep (joinSep (cs @ [[]])) = cs @ [[]]"
        using el by (intro splitSep_joinSep) auto
      have "isRooted (joinSep cs @ ''/'') = isRooted (joinSep cs)"
        using joinSep_hd [of cs] relPath_elems [OF rp] False
        by (cases "joinSep cs") (auto simp: isRooted_def goodElem_def)
      then have nr: "\<not> isRooted (joinSep (cs @ [[]]))"
        using False isRooted_joinSep [of cs] relPath_elems [OF rp] by (simp add: joinSep_snoc)
      have "foldl (cleanStep False) [] (cs @ [[]]) = rev cs"
        using refold [of False "rev cs"] rp by (simp add: relPath_def cleanStep_def)
      with sp nr False show ?thesis by (simp add: Clean_def)
    qed
    finally show ?thesis using False by simp
  qed
qed

lemma Join_snoc:
  assumes "relPath cs" "goodElem c" "c \<noteq> ''..''"
  shows "Join [joinSep cs, c] = joinSep (cs @ [c])"
proof -
  have ne: "joinSep cs \<noteq> []"
    using assms(1) joinSep_hd [of cs] relPath_elems [OF assms(1)]
    by (cases cs) (auto simp: relPath_def goodElem_def)
  have rp: "relPath (cs @ [c])" using assms by (simp add: relPath_def)
  have "Join [joinSep cs, c] = Clean (joinSep cs @ CHR ''/'' # c)" using ne by (simp add: Join_def)
  also have "joinSep cs @ CHR ''/'' # c = joinSep (cs @ [c])"
    using assms(1) by (simp add: joinSep_snoc relPath_def)
  finally show ?thesis using Clean_joinSep [OF rp] by simp
qed

lemma pem_suffix_good: "goodElem c \<Longrightarrow> goodElem (c @ ''.pem'') \<and> c @ ''.pem'' \<noteq> ''..''"
  by (cases c) (auto simp: goodElem_def)

lemma joinSep_not_dot: "relPath cs \<Longrightarrow> joinSep cs \<noteq> ''.''"
proof (induction cs rule: rev_induct)
  case Nil
  then show ?case by (simp add: relPath_def)
next
  case (snoc c cs)
  then have gc: "goodElem c" using relPath_elems by fastforce
  show ?case
  proof (cases "cs = []")
    case True
    with gc show ?thesis by (simp add: goodElem_def)
  next
    case False
    then have "CHR ''/'' \<in> set (joinSep (cs @ [c]))" by (simp add: joinSep_snoc)
    then show ?thesis by auto
  qed
qed

lemma certFile_snoc:
  assumes "relPath (cs @ [c])"
  shows "Join [joinSep (cs @ [c]), Base (joinSep (cs @ [c])) @ ''.pem''] = joinSep (cs @ [c, c @ ''.pem''])"
proof -
  have gc: "goodElem c" using relPath_elems [OF assms] by simp
  show ?thesis
    using Join_snoc [OF assms, of "c @ ''.pem''"] pem_suffix_good [OF gc] Base_snoc [OF gc, of cs]
    by simp
qed

lemma pemWalk_rel: "relPath cs \<Longrightarrow> pemWalk w (joinSep cs) d tr = readAll w (chainFiles cs) d tr"
proof (induction cs arbitrary: d tr rule: rev_induct)
  case Nil
  then show ?case by (simp add: relPath_def)
next
  case (snoc c cs)
  have gc: "goodElem c" using relPath_elems [OF snoc.prems] by simp
  have b: "Base (joinSep (cs @ [c])) \<noteq> ''.''" using Base_snoc [OF gc, of cs] gc by (simp add: goodElem_def)
  note f = certFile_snoc [OF snoc.prems]
  have rest: "pemWalk w (Dir (joinSep (cs @ [c]))) d' tr' = readAll w (chainFiles cs) d' tr'" for d' tr'
  proof (cases "cs = []")
    case True
    then have "Dir (joinSep (cs @ [c])) = ''.''" using Dir_snoc [OF snoc.prems] by simp
    moreover have "Base ''.'' = ''.''" by (simp add: Base_def)
    ultimately show ?thesis using True by (subst pemWalk.simps) (simp add: chainFiles_def)
  next
    case False
    then show ?thesis using Dir_snoc [OF snoc.prems] snoc.IH relPath_butlast [OF snoc.prems] by simp
  qed
  show ?case
    by (subst pemWalk.simps) (simp add: b f rest chainFiles_def split: option.splits)
qed

lemma p12Walk_rel: "relPath cs \<Longrightarrow> p12Walk w (joinSep cs) d tr = readAll w (chainFiles cs) d tr"
proof (induction cs arbitrary: d tr rule: rev_induct)
  case Nil
  then show ?case by (simp add: relPath_def)
next
  case (snoc c cs)
  have b: "joinSep (cs @ [c]) \<noteq> ''.''" using joinSep_not_dot [OF snoc.prems] .
  note f = certFile_snoc [OF snoc.prems]
  have rest: "p12Walk w (Dir (joinSep (cs @ [c]))) d' tr' = readAll w (chainFiles cs) d' tr'" for d' tr'
  proof (cases "cs = []")
    case True
    then have "Dir (joinSep (cs @ [c])) = ''.''" using Dir_snoc [OF snoc.prems] by simp
    then show ?thesis using True by (subst p12Walk.simps) (simp add: chainFiles_def)
  next
    case False
    then show ?thesis using Dir_snoc [OF snoc.prems] snoc.IH relPath_butlast [OF snoc.prems] by simp
  qed
  show ?case
    by (subst p12Walk.simps) (simp add: b f rest chainFiles_def split: option.splits)
qed

lemma readAll_ok:
  "\<forall>file\<in>set files. readCert w file \<noteq> None \<Longrightarrow>
   readAll w files d tr = Some (Inr (d @ concat (map (\<lambda>file. the (readCert w file)) files)), tr @ map ReadCert files)"
  by (induction files arbitrary: d tr) auto

lemma readAll_total: "\<exists>r. readAll w files d tr = Some r"
  by (induction files arbitrary: d tr) (auto split: option.splits)

section \<open>Facts about the export code\<close>

lemma nilString_not_Nil: "nilString \<noteq> []"
  by (simp add: nilString_def)





lemma root_path_facts:
  "Dir ''/'' = ''/''" "Base ''/'' = ''/''" "Join [''/'', ''/.pem''] = ''/.pem''"
  by code_simp+

lemma pemWalk_root_diverges_aux:
  assumes "pemWalk w p d tr = Some y"
  shows "p \<noteq> ''/'' \<or> readCert w ''/.pem'' = None"
proof (rule pemWalk.raw_induct
    [where P = "\<lambda>w p d tr y. p \<noteq> ''/'' \<or> readCert w ''/.pem'' = None", OF _ assms])
  fix walk :: "world \<Rightarrow> string \<Rightarrow> bytes \<Rightarrow> trace \<Rightarrow> bytes step"
  fix w p d tr y
  assume IH: "\<And>p d tr b y. walk p d tr b = Some y \<Longrightarrow> d \<noteq> ''/'' \<or> readCert p ''/.pem'' = None"
  assume body: "(if Base p \<noteq> ''.''
      then case readCert w (Join [p, Base p @ ''.pem'']) of
           None \<Rightarrow> Some (Inl (CertReadError (Join [p, Base p @ ''.pem''])),
                     tr @ [ReadCert (Join [p, Base p @ ''.pem''])])
         | Some c \<Rightarrow> walk w (Dir p) (d @ c) (tr @ [ReadCert (Join [p, Base p @ ''.pem''])])
      else Some (Inr d, tr)) = Some y"
  show "p \<noteq> ''/'' \<or> readCert w ''/.pem'' = None"
  proof (rule ccontr)
    assume "\<not> (p \<noteq> ''/'' \<or> readCert w ''/.pem'' = None)"
    then obtain c where p: "p = ''/''" and c: "readCert w ''/.pem'' = Some c" by auto
    from body have "walk w ''/'' (d @ c) (tr @ [ReadCert ''/.pem'']) = Some y"
      by (simp add: p c root_path_facts)
    from IH [OF this] c show False by simp
  qed
qed

lemma p12Walk_root_diverges_aux:
  assumes "p12Walk w p d tr = Some y"
  shows "p \<noteq> ''/'' \<or> readCert w ''/.pem'' = None"
proof (rule p12Walk.raw_induct
    [where P = "\<lambda>w p d tr y. p \<noteq> ''/'' \<or> readCert w ''/.pem'' = None", OF _ assms])
  fix walk :: "world \<Rightarrow> string \<Rightarrow> bytes \<Rightarrow> trace \<Rightarrow> bytes step"
  fix w p d tr y
  assume IH: "\<And>p d tr b y. walk p d tr b = Some y \<Longrightarrow> d \<noteq> ''/'' \<or> readCert p ''/.pem'' = None"
  assume body: "(if p \<noteq> ''.''
      then case readCert w (Join [p, Base p @ ''.pem'']) of
           None \<Rightarrow> Some (Inl (CertReadError (Join [p, Base p @ ''.pem''])),
                     tr @ [ReadCert (Join [p, Base p @ ''.pem''])])
         | Some c \<Rightarrow> walk w (Dir p) (d @ c) (tr @ [ReadCert (Join [p, Base p @ ''.pem''])])
      else Some (Inr d, tr)) = Some y"
  show "p \<noteq> ''/'' \<or> readCert w ''/.pem'' = None"
  proof (rule ccontr)
    assume "\<not> (p \<noteq> ''/'' \<or> readCert w ''/.pem'' = None)"
    then obtain c where p: "p = ''/''" and c: "readCert w ''/.pem'' = Some c" by auto
    from body have "walk w ''/'' (d @ c) (tr @ [ReadCert ''/.pem'']) = Some y"
      by (simp add: p c root_path_facts)
    from IH [OF this] c show False by simp
  qed
qed

lemma Join_two_clean: "a \<noteq> [] \<Longrightarrow> Clean (Join [a, b]) = Join [a, b]"
  by (simp add: Join_def Clean_idem)




lemma Base_dot: "Base ''.'' = ''.''"
  by (simp add: Base_def)

lemma walks_clean:
  assumes "Clean p = p" "\<not> isRooted p"
  shows "pemWalk w p d tr = readAll w (chainOf p) d tr"
    and "p12Walk w p d tr = readAll w (chainOf p) d tr"
proof -
  show "pemWalk w p d tr = readAll w (chainOf p) d tr"
  proof (cases "p = ''.''")
    case True
    then show ?thesis by (subst pemWalk.simps) (simp add: Base_dot chainOf_def)
  next
    case False
    then have "relPath (splitSep p)" using assms by (simp add: clean_relPath)
    from pemWalk_rel [OF this, of w d tr] False show ?thesis
      by (simp add: joinSep_splitSep chainOf_def)
  qed
  show "p12Walk w p d tr = readAll w (chainOf p) d tr"
  proof (cases "p = ''.''")
    case True
    then show ?thesis by (subst p12Walk.simps) (simp add: chainOf_def)
  next
    case False
    then have "relPath (splitSep p)" using assms by (simp add: clean_relPath)
    from p12Walk_rel [OF this, of w d tr] False show ?thesis
      by (simp add: joinSep_splitSep chainOf_def)
  qed
qed

lemma chainUp_length: "length (chainUp cs) = length cs"
  by (induction cs) auto

lemma Dir_steps:
  "relPath cs \<Longrightarrow>
   (Dir ^^ length cs) (joinSep cs) = ''.''
   \<and> (\<forall>k<length cs. (Dir ^^ k) (joinSep cs) \<noteq> ''.'' \<and> Base ((Dir ^^ k) (joinSep cs)) \<noteq> ''.'')"
proof (induction cs rule: rev_induct)
  case Nil
  then show ?case by (simp add: relPath_def)
next
  case (snoc c cs)
  have gc: "goodElem c" using relPath_elems [OF snoc.prems] by simp
  have b: "Base (joinSep (cs @ [c])) \<noteq> ''.''"
    using Base_snoc [OF gc, of cs] gc by (simp add: goodElem_def)
  have nd: "joinSep (cs @ [c]) \<noteq> ''.''" using joinSep_not_dot [OF snoc.prems] .
  show ?case
  proof (cases "cs = []")
    case True
    then have "Dir (joinSep (cs @ [c])) = ''.''" using Dir_snoc [OF snoc.prems] by simp
    with True b nd show ?thesis by simp
  next
    case False
    then have d: "Dir (joinSep (cs @ [c])) = joinSep cs" using Dir_snoc [OF snoc.prems] by simp
    have IH: "(Dir ^^ length cs) (joinSep cs) = ''.''"
      "\<And>k. k < length cs \<Longrightarrow> (Dir ^^ k) (joinSep cs) \<noteq> ''.'' \<and> Base ((Dir ^^ k) (joinSep cs)) \<noteq> ''.''"
      using snoc.IH [OF relPath_butlast [OF snoc.prems False]] by simp_all
    have "(Dir ^^ length (cs @ [c])) (joinSep (cs @ [c])) = ''.''"
      using IH(1) d by (simp add: funpow_swap1)
    moreover have "(Dir ^^ k) (joinSep (cs @ [c])) \<noteq> ''.''
        \<and> Base ((Dir ^^ k) (joinSep (cs @ [c]))) \<noteq> ''.''" if "k < length (cs @ [c])" for k
    proof (cases k)
      case 0
      with b nd show ?thesis by simp
    next
      case (Suc j)
      with that have "j < length cs" by simp
      from IH(2) [OF this] Suc d show ?thesis by (simp add: funpow_swap1)
    qed
    ultimately show ?thesis by blast
  qed
qed

lemma pemWalk_clean_ok:
  assumes "Clean p = p" "\<not> isRooted p" "\<forall>file\<in>set (chainOf p). readCert w file \<noteq> None"
  shows "pemWalk w p d tr =
      Some (Inr (d @ concat (map (certBytes w) (chainOf p))), tr @ map ReadCert (chainOf p))"
proof -
  have "map (\<lambda>file. the (readCert w file)) (chainOf p) = map (certBytes w) (chainOf p)"
    using assms(3) by (auto simp: certBytes_def)
  with readAll_ok [OF assms(3), of d tr] walks_clean(1) [OF assms(1,2), of w d tr]
  show ?thesis by simp
qed

lemma entriesNamed_append: "entriesNamed (a @ b) n = entriesNamed a n @ entriesNamed b n"
  by (simp add: entriesNamed_def)

lemma entriesNamed_reads: "entriesNamed (map ReadCert fs) n = []"
  by (induction fs) (auto simp: entriesNamed_def)

lemma Join_name:
  assumes "goodElem c" "goodElem x" "x \<noteq> ''..''"
  shows "Join [c, x] = c @ CHR ''/'' # x"
proof -
  have "relPath [c]" using assms(1) by (simp add: relPath_def)
  from Join_snoc [OF this assms(2,3)] show ?thesis by simp
qed

lemma Base_clean:
  assumes "Clean p = p" "\<not> isRooted p" "p \<noteq> ''.''"
  shows "goodElem (Base p)"
proof -
  have rp: "relPath (splitSep p)" using assms by (rule clean_relPath)
  then have ne: "splitSep p \<noteq> []" by (simp add: relPath_def)
  then have sp: "splitSep p = butlast (splitSep p) @ [last (splitSep p)]" by simp
  have g: "goodElem (last (splitSep p))" using relPath_elems [OF rp] ne by simp
  have "Base (joinSep (butlast (splitSep p) @ [last (splitSep p)])) = last (splitSep p)"
    using g by (rule Base_snoc)
  then have "Base p = last (splitSep p)" using sp by (simp add: joinSep_splitSep)
  with g show ?thesis by simp
qed

lemma pemWalk_rooted_diverges:
  assumes "readCert w ''/a/a.pem'' = Some c" "readCert w ''/.pem'' \<noteq> None"
  shows "pemWalk w ''/a'' d tr = None"
proof -
  have f: "Base ''/a'' = ''a''" "Join [''/a'', ''a.pem''] = ''/a/a.pem''" "Dir ''/a'' = ''/''"
    by code_simp+
  have "pemWalk w ''/a'' d tr = pemWalk w ''/'' (d @ c) (tr @ [ReadCert ''/a/a.pem''])"
    by (subst pemWalk.simps) (simp add: f assms(1))
  moreover have "pemWalk w ''/'' (d @ c) (tr @ [ReadCert ''/a/a.pem'']) = None"
    using pemWalk_root_diverges_aux [of w "''/''" "d @ c" "tr @ [ReadCert ''/a/a.pem'']"] assms(2)
    by (cases "pemWalk w ''/'' (d @ c) (tr @ [ReadCert ''/a/a.pem''])") auto
  ultimately show ?thesis by simp
qed

section \<open>The claims\<close>

text \<open>
  C1. Claimed: whenever a P12 export creates the temporary bundle file, the file does not
  exist afterwards, on all exit paths, including failure of the external toolchain and
  failure writing the file. The code registers the removal with \<^verbatim>\<open>defer\<close> only after the
  write has succeeded, and every failure ends the process through \<^verbatim>\<open>ErrorLog.Fatalf\<close>,
  which does not run deferred calls. Evaluated on the tree of the scenario: when
  \<^verbatim>\<open>openssl\<close> fails the export ends with the fatal error of the toolchain and the temporary
  file still exists, with no removal attempted; the same when the write fails.
\<close>

theorem exportP12_failure_leaves_temp_file:
  "exportP12 opensslFails leafP12 [] =
     Some (Inl OpensslError,
       [Info ''Running openssl to create p12 file'',
        ReadCert ''root/intermediate/leaf/leaf.pem'',
        ReadCert ''root/intermediate/intermediate.pem'',
        ReadCert ''root/root.pem'',
        TempCreate ''/tmp/certshop123'',
        TempWrite ''/tmp/certshop123'' [1, 2, 3],
        RunOpenssl [''pkcs12'', ''-export'', ''-name'', ''leaf'', ''-inkey'',
          ''root/intermediate/leaf/leaf-key.pem'', ''-aes256'', ''-passout'', ''pass:secret2'',
          ''-in'', ''/tmp/certshop123'']])
   \<and> tmpExists (snd (the (exportP12 opensslFails leafP12 []))) ''/tmp/certshop123''
   \<and> exportP12 writeFails leafP12 [] =
     Some (Inl FailedToWriteTemp,
       [Info ''Running openssl to create p12 file'',
        ReadCert ''root/intermediate/leaf/leaf.pem'',
        ReadCert ''root/intermediate/intermediate.pem'',
        ReadCert ''root/root.pem'',
        TempCreate ''/tmp/certshop123'',
        TempWrite ''/tmp/certshop123'' [1, 2, 3]])
   \<and> tmpExists (snd (the (exportP12 writeFails leafP12 []))) ''/tmp/certshop123''"
  by code_simp




text \<open>
  C3. Claimed: the output sink is opened once at the start of the export and closed exactly
  once before the export completes, on the success path and on every failure path out of
  the encoding step. The code closes the writer with \<^verbatim>\<open>defer writer.close()\<close>, and every
  failure of an encoder ends the process through \<^verbatim>\<open>ErrorLog.Fatal\<close>, which does not run
  deferred calls. Evaluated: when \<^verbatim>\<open>openssl\<close> fails in a P12 export, and when the P12
  encoder rejects a request without output password, the sink has been opened and is never
  closed.
\<close>

theorem failed_export_leaves_sink_open:
  "exportCertificate opensslFails leafP12 [] =
     Some (Inl OpensslError,
       [Info ''Exporting root/intermediate/leaf'',
        SinkOpen,
        Info ''Running openssl to create p12 file'',
        ReadCert ''root/intermediate/leaf/leaf.pem'',
        ReadCert ''root/intermediate/intermediate.pem'',
        ReadCert ''root/root.pem'',
        TempCreate ''/tmp/certshop123'',
        TempWrite ''/tmp/certshop123'' [1, 2, 3],
        RunOpenssl [''pkcs12'', ''-export'', ''-name'', ''leaf'', ''-inkey'',
          ''root/intermediate/leaf/leaf-key.pem'', ''-aes256'', ''-passout'', ''pass:secret2'',
          ''-in'', ''/tmp/certshop123'']])
   \<and> count_list (snd (the (exportCertificate opensslFails leafP12 []))) SinkOpen = 1
   \<and> count_list (snd (the (exportCertificate opensslFails leafP12 []))) SinkClose = 0
   \<and> exportCertificate treeWorld (leafP12\<lparr>passOut := nilString\<rparr>) [] =
     Some (Inl PassOutRequired,
       [Info ''Exporting root/intermediate/leaf'',
        SinkOpen,
        Info ''Running openssl to create p12 file''])"
  by code_simp

text \<open>
  C4. Claimed: for every archive export with certificate export requested, on a target whose
  ancestor chain files all read successfully, the \<^verbatim>\<open>cert.pem\<close> entry written under
  \<^verbatim>\<open>basename(target)/\<close> is the leaf-first concatenation of the certificate files. The walk
  of \<^verbatim>\<open>exportPEM\<close> stops only at \<^verbatim>\<open>.\<close>, and the \<^verbatim>\<open>ca.pem\<close> entry is read and written before
  the chain. So for the rooted target \<^verbatim>\<open>/a\<close>, with \<^verbatim>\<open>/a/a.pem\<close> and \<^verbatim>\<open>/.pem\<close> readable, the
  encoder, and with it the whole export, never returns and writes no entry; and for the
  leaf of the tree with the external CA \<^verbatim>\<open>ca\<close>, whose file is not a certificate, the export
  ends fatally at that read, before any \<^verbatim>\<open>cert.pem\<close> entry.
\<close>

theorem exportPEM_rooted_or_bad_ca_no_entry:
  "exportCrt (leafPEM\<lparr>path := ''/a''\<rparr>)
   \<and> ToLower (exportFormat (leafPEM\<lparr>path := ''/a''\<rparr>)) = ''pem''
   \<and> Clean ''/a'' = ''/a''
   \<and> readCert rootedWorld ''/a/a.pem'' = Some [1]
   \<and> readCert rootedWorld ''/.pem'' = Some [7]
   \<and> exportPEM rootedWorld (leafPEM\<lparr>path := ''/a''\<rparr>) [] = None
   \<and> exportCertificate rootedWorld (leafPEM\<lparr>path := ''/a''\<rparr>) [] = None
   \<and> exportPEM badCAWorld (leafPEM\<lparr>exportCA := ''ca/ca.pem''\<rparr>) [] =
       Some (Inl (CertReadError ''ca/ca.pem''), [ReadCert ''ca/ca.pem''])
   \<and> exportCertificate badCAWorld (leafPEM\<lparr>exportCA := ''ca''\<rparr>) [] =
       Some (Inl (CertReadError ''ca/ca.pem''),
         [Info ''Exporting root/intermediate/leaf'',
          Stat ''ca'',
          Stat ''ca/ca.pem'',
          SinkOpen,
          ReadCert ''ca/ca.pem''])"
proof -
  let ?f = "leafPEM\<lparr>path := ''/a''\<rparr>"
  have r: "readCert rootedWorld ''/a/a.pem'' = Some [1]" "readCert rootedWorld ''/.pem'' = Some [7]"
    by code_simp+
  then have w: "pemWalk rootedWorld ''/a'' [] t = None" for t
    by (intro pemWalk_rooted_diverges) simp_all
  have fl: "exportCrt ?f" "ToLower (exportFormat ?f) = ''pem''" "Clean ''/a'' = ''/a''"
    "exportCA ?f = []" "path ?f = ''/a''"
    by code_simp+
  have a: "exportPEM rootedWorld ?f t = None" for t
    unfolding exportPEM_def by (simp add: fl w andThen_def)
  have fmt: "ToLower (exportFormat leafPEM) = ''pem''" by code_simp
  have enc: "encode rootedWorld ?f t = None" for t
    by (simp add: encode_def fmt a)
  have noca: "exportCA leafPEM = []" by code_simp
  have b: "exportCertificate rootedWorld ?f [] = None"
    unfolding exportCertificate_def by (simp add: noca enc andThen_def withDefer_def)
  have c: "exportPEM badCAWorld (leafPEM\<lparr>exportCA := ''ca/ca.pem''\<rparr>) [] =
       Some (Inl (CertReadError ''ca/ca.pem''), [ReadCert ''ca/ca.pem''])"
    by code_simp
  have d: "exportCertificate badCAWorld (leafPEM\<lparr>exportCA := ''ca''\<rparr>) [] =
       Some (Inl (CertReadError ''ca/ca.pem''),
         [Info ''Exporting root/intermediate/leaf'',
          Stat ''ca'',
          Stat ''ca/ca.pem'',
          SinkOpen,
          ReadCert ''ca/ca.pem''])"
    by code_simp
  from fl(1,2,3) r a [of "[]"] b c d show ?thesis by (intro conjI)
qed

text \<open>
  C4, amended. For every archive export with certificate export requested, on a target that
  is a cleaned relative path (as \<^verbatim>\<open>parseExportFlags\<close> produces it for a node below the
  working directory), when the external-CA path is empty or names a readable certificate
  and every certificate file of the chain reads successfully: the encoder finishes and has
  written exactly one entry named \<^verbatim>\<open>Join(basename(target), "cert.pem")\<close>, which is
  \<^verbatim>\<open>basename(target)/cert.pem\<close> for every target other than the working directory \<^verbatim>\<open>.\<close>; its
  data is the concatenation of the certificate files in leaf-first order: the target's own
  file, then its parent's, then each further ancestor's, one for each element of the path
  (\<open>chainOf\<close>; none for \<^verbatim>\<open>.\<close>).
\<close>

theorem exportPEM_cert_entry:
  assumes "Clean (path f) = path f" "\<not> isRooted (path f)"
    and "exportCrt f"
    and "exportCA f = [] \<or> readCert w (exportCA f) \<noteq> None"
    and "\<forall>file\<in>set (chainOf (path f)). readCert w file \<noteq> None"
  shows "\<exists>r tr'. exportPEM w f tr = Some (r, tr')
      \<and> entriesNamed tr' (Join [Base (path f), ''cert.pem''])
          = entriesNamed tr (Join [Base (path f), ''cert.pem''])
            @ [concat (map (certBytes w) (chainOf (path f)))]
      \<and> (path f \<noteq> ''.'' \<longrightarrow> Join [Base (path f), ''cert.pem''] = Base (path f) @ ''/cert.pem'')"
proof -
  let ?n = "Join [Base (path f), ''cert.pem'']"
  let ?a = "Join [Base (path f), ''ca.pem'']"
  let ?data = "concat (map (certBytes w) (chainOf (path f)))"
  have names: "?a \<noteq> ?n \<and> (path f \<noteq> ''.'' \<longrightarrow> ?n = Base (path f) @ ''/cert.pem'')"
  proof (cases "path f = ''.''")
    case True
    have "Join [Base ''.'', ''cert.pem''] = ''cert.pem''" "Join [Base ''.'', ''ca.pem''] = ''ca.pem''"
      by code_simp+
    with True show ?thesis by simp
  next
    case False
    have gb: "goodElem (Base (path f))" using assms(1,2) False by (rule Base_clean)
    have jc: "?n = Base (path f) @ ''/cert.pem''"
      using Join_name [OF gb, of "''cert.pem''"] by (simp add: goodElem_def)
    have ja: "?a = Base (path f) @ ''/ca.pem''"
      using Join_name [OF gb, of "''ca.pem''"] by (simp add: goodElem_def)
    show ?thesis by (simp add: jc ja)
  qed
  then have ne: "?a \<noteq> ?n" by simp
  have walk: "pemWalk w (path f) [] t = Some (Inr ?data, t @ map ReadCert (chainOf (path f)))" for t
    using pemWalk_clean_ok [OF assms(1,2,5), of "[]" t] by simp
  obtain tr1 where ca: "(if exportCA f \<noteq> [] then
          andThen (readCertStep w (exportCA f) tr)
            (\<lambda>c tr1. Some (Inr (), tr1 @ [WriteData c ?a 420]))
        else Some (Inr (), tr)) = Some (Inr (), tr1)"
    and e1: "entriesNamed tr1 ?n = entriesNamed tr ?n"
  proof (cases "exportCA f = []")
    case True
    then show ?thesis using that by simp
  next
    case False
    with assms(4) obtain c where c: "readCert w (exportCA f) = Some c" by auto
    have "entriesNamed (tr @ [ReadCert (exportCA f), WriteData c ?a 420]) ?n = entriesNamed tr ?n"
      using ne by (simp add: entriesNamed_def)
    with False c show ?thesis using that [of "tr @ [ReadCert (exportCA f), WriteData c ?a 420]"]
      by (simp add: andThen_def readCertStep_def)
  qed
  let ?tr2 = "tr1 @ map ReadCert (chainOf (path f)) @ [WriteData ?data ?n 420]"
  have e2: "entriesNamed ?tr2 ?n = entriesNamed tr ?n @ [?data]"
    using e1 by (simp add: entriesNamed_append entriesNamed_reads) (simp add: entriesNamed_def)
  have "\<exists>r evs. exportPEM w f tr = Some (r, ?tr2 @ evs) \<and> entriesNamed evs ?n = []"
    unfolding exportPEM_def ca
    using assms(3) walk [of tr1]
    by (auto simp: andThen_def entriesNamed_def split: option.splits)
  then obtain r evs where x: "exportPEM w f tr = Some (r, ?tr2 @ evs)"
    "entriesNamed evs ?n = []" by blast
  have "entriesNamed (?tr2 @ evs) ?n = entriesNamed tr ?n @ [?data]"
    unfolding entriesNamed_append [of ?tr2 evs] e2 x(2) by simp
  with x(1) names show ?thesis by blast
qed

theorem exportPEM_cert_entry_witness:
  "chainOf (path leafPEM) =
     [''root/intermediate/leaf/leaf.pem'', ''root/intermediate/intermediate.pem'', ''root/root.pem'']
   \<and> exportPEM treeWorld leafPEM [] =
     Some (Inr (),
       [ReadCert ''root/intermediate/leaf/leaf.pem'',
        ReadCert ''root/intermediate/intermediate.pem'',
        ReadCert ''root/root.pem'',
        WriteData [1, 2, 3] ''leaf/cert.pem'' 420])
   \<and> entriesNamed (snd (the (exportPEM treeWorld leafPEM []))) ''leaf/cert.pem'' = [[1, 2, 3]]"
proof -
  have h1: "Clean (path leafPEM) = path leafPEM" by code_simp
  have h2: "\<not> isRooted (path leafPEM)" by code_simp
  have h3: "path leafPEM \<noteq> ''.''" by code_simp
  have h4: "exportCrt leafPEM" by code_simp
  have h5: "exportCA leafPEM = [] \<or> readCert treeWorld (exportCA leafPEM) \<noteq> None" by code_simp
  have c: "chainOf (path leafPEM) =
     [''root/intermediate/leaf/leaf.pem'', ''root/intermediate/intermediate.pem'', ''root/root.pem'']"
    by code_simp
  have h6: "\<forall>file\<in>set (chainOf (path leafPEM)). readCert treeWorld file \<noteq> None"
    unfolding c by code_simp
  have b: "Base (path leafPEM) @ ''/cert.pem'' = ''leaf/cert.pem''" by code_simp
  have d: "concat (map (certBytes treeWorld) (chainOf (path leafPEM))) = [1, 2, 3]"
    unfolding c by code_simp
  have run: "exportPEM treeWorld leafPEM [] =
     Some (Inr (),
       [ReadCert ''root/intermediate/leaf/leaf.pem'',
        ReadCert ''root/intermediate/intermediate.pem'',
        ReadCert ''root/root.pem'',
        WriteData [1, 2, 3] ''leaf/cert.pem'' 420])"
    by code_simp
  from exportPEM_cert_entry [OF h1 h2 h4 h5 h6, of "[]"]
  obtain r tr' where x: "exportPEM treeWorld leafPEM [] = Some (r, tr')"
    "entriesNamed tr' (Join [Base (path leafPEM), ''cert.pem''])
      = entriesNamed [] (Join [Base (path leafPEM), ''cert.pem''])
        @ [concat (map (certBytes treeWorld) (chainOf (path leafPEM)))]"
    "path leafPEM \<noteq> ''.'' \<longrightarrow> Join [Base (path leafPEM), ''cert.pem''] = Base (path leafPEM) @ ''/cert.pem''"
    by blast
  from x(3) h3 b have n: "Join [Base (path leafPEM), ''cert.pem''] = ''leaf/cert.pem''" by simp
  have e: "entriesNamed [] ''leaf/cert.pem'' = []" by (simp add: entriesNamed_def)
  from x(2) have "entriesNamed tr' ''leaf/cert.pem'' = [[1, 2, 3]]"
    unfolding n d e by simp
  moreover from x(1) have "snd (the (exportPEM treeWorld leafPEM [])) = tr'" by simp
  ultimately have "entriesNamed (snd (the (exportPEM treeWorld leafPEM []))) ''leaf/cert.pem'' = [[1, 2, 3]]"
    by simp
  with c run show ?thesis by (intro conjI)
qed

text \<open>
  C5. Claimed: for every target path the chain walk terminates, and it stops exactly when the
  basename of the current directory equals the current directory itself, the root of the
  file system. The loops test against \<^verbatim>\<open>.\<close>: \<^verbatim>\<open>Base(certPath) != "."\<close> in the archive
  encoder, \<^verbatim>\<open>certPath != "."\<close> in the P12 encoder. From the rooted path \<^verbatim>\<open>/\<close>, with a readable
  \<^verbatim>\<open>/.pem\<close>, neither walk ever finishes, since \<^verbatim>\<open>Dir("/")\<close> is \<^verbatim>\<open>/\<close>; and at \<^verbatim>\<open>root\<close>, whose
  basename is \<^verbatim>\<open>root\<close> itself, the walk does not stop but reads \<^verbatim>\<open>root/root.pem\<close>.
\<close>

theorem chain_walk_rooted_path_never_stops:
  "pemWalk rootWorld ''/'' [] [] = None
   \<and> p12Walk rootWorld ''/'' [] [] = None
   \<and> Base ''root'' = ''root''
   \<and> pemWalk treeWorld ''root'' [] [] = Some (Inr [3], [ReadCert ''root/root.pem''])"
proof -
  have r: "readCert rootWorld ''/.pem'' \<noteq> None" by code_simp
  have a: "pemWalk rootWorld ''/'' [] [] = None"
    using pemWalk_root_diverges_aux [of rootWorld "''/''" "[]" "[]"] r
    by (cases "pemWalk rootWorld ''/'' [] []") auto
  have b: "p12Walk rootWorld ''/'' [] [] = None"
    using p12Walk_root_diverges_aux [of rootWorld "''/''" "[]" "[]"] r
    by (cases "p12Walk rootWorld ''/'' [] []") auto
  have c: "Base ''root'' = ''root''" by code_simp
  have d: "pemWalk treeWorld ''root'' [] [] = Some (Inr [3], [ReadCert ''root/root.pem''])" by code_simp
  from a b c d show ?thesis by simp
qed

text \<open>
  C5, amended. For every cleaned relative target path \<open>p\<close>, the chain walk of both encoders
  terminates, with the same result: it reads the certificate files of \<open>chainOf p\<close> in order,
  one for each element of the path, stopping early only when a read fails (fatally). It stops
  exactly when the current path is \<^verbatim>\<open>.\<close>, the working directory: after \<open>k\<close> steps the current
  path is \<open>(Dir ^^ k) p\<close>; for every \<open>k\<close> below the length of the chain neither that path nor
  its basename is \<^verbatim>\<open>.\<close> (the tests of the P12 and of the archive encoder), and after as many
  steps as the chain is long the current path is \<^verbatim>\<open>.\<close>. No count or depth limit is involved.
\<close>

theorem chain_walk_relative_path:
  assumes "Clean p = p" "\<not> isRooted p"
  shows "(Dir ^^ length (chainOf p)) p = ''.''
     \<and> (\<forall>k<length (chainOf p). (Dir ^^ k) p \<noteq> ''.'' \<and> Base ((Dir ^^ k) p) \<noteq> ''.'')
     \<and> pemWalk w p d tr = readAll w (chainOf p) d tr
     \<and> p12Walk w p d tr = readAll w (chainOf p) d tr
     \<and> (\<exists>r. pemWalk w p d tr = Some r \<and> p12Walk w p d tr = Some r)
     \<and> ((\<forall>file\<in>set (chainOf p). readCert w file \<noteq> None) \<longrightarrow>
          pemWalk w p d tr =
            Some (Inr (d @ concat (map (certBytes w) (chainOf p))), tr @ map ReadCert (chainOf p)))"
proof -
  note wk = walks_clean [OF assms, of w d tr]
  have steps: "(Dir ^^ length (chainOf p)) p = ''.''
     \<and> (\<forall>k<length (chainOf p). (Dir ^^ k) p \<noteq> ''.'' \<and> Base ((Dir ^^ k) p) \<noteq> ''.'')"
  proof (cases "p = ''.''")
    case True
    then show ?thesis by (simp add: chainOf_def)
  next
    case False
    then have "relPath (splitSep p)" using assms by (simp add: clean_relPath)
    from Dir_steps [OF this] False show ?thesis
      by (simp add: joinSep_splitSep chainOf_def chainFiles_def chainUp_length)
  qed
  obtain r where r: "readAll w (chainOf p) d tr = Some r" using readAll_total by blast
  have ok: "readAll w (chainOf p) d tr =
      Some (Inr (d @ concat (map (certBytes w) (chainOf p))), tr @ map ReadCert (chainOf p))"
    if "\<forall>file\<in>set (chainOf p). readCert w file \<noteq> None"
  proof -
    have "map (\<lambda>file. the (readCert w file)) (chainOf p) = map (certBytes w) (chainOf p)"
      using that by (auto simp: certBytes_def)
    with readAll_ok [OF that, of d tr] show ?thesis by simp
  qed
  from steps wk r ok show ?thesis by simp
qed

theorem chain_walk_relative_path_witness:
  "Dir (Dir (Dir ''root/intermediate/leaf'')) = ''.''
   \<and> chainOf ''root/intermediate/leaf'' =
       [''root/intermediate/leaf/leaf.pem'', ''root/intermediate/intermediate.pem'', ''root/root.pem'']
   \<and> pemWalk treeWorld ''root/intermediate/leaf'' [] [] =
       Some (Inr [1, 2, 3],
         [ReadCert ''root/intermediate/leaf/leaf.pem'',
          ReadCert ''root/intermediate/intermediate.pem'',
          ReadCert ''root/root.pem''])
   \<and> p12Walk treeWorld ''root/intermediate/leaf'' [] [] =
       Some (Inr [1, 2, 3],
         [ReadCert ''root/intermediate/leaf/leaf.pem'',
          ReadCert ''root/intermediate/intermediate.pem'',
          ReadCert ''root/root.pem''])"
proof -
  let ?p = "''root/intermediate/leaf''"
  have h1: "Clean ?p = ?p" by code_simp
  have h2: "\<not> isRooted ?p" by code_simp
  have c: "chainOf ?p =
       [''root/intermediate/leaf/leaf.pem'', ''root/intermediate/intermediate.pem'', ''root/root.pem'']"
    by code_simp
  have r: "\<forall>file\<in>set (chainOf ?p). readCert treeWorld file \<noteq> None"
    unfolding c by code_simp
  have b: "concat (map (certBytes treeWorld) (chainOf ?p)) = [1, 2, 3]"
    unfolding c by code_simp
  note T = chain_walk_relative_path [OF h1 h2, of treeWorld "[]" "[]"]
  note A = T [THEN conjunct1]
  note C = T [THEN conjunct2, THEN conjunct2, THEN conjunct1]
  note D = T [THEN conjunct2, THEN conjunct2, THEN conjunct2, THEN conjunct1]
  note F = T [THEN conjunct2, THEN conjunct2, THEN conjunct2, THEN conjunct2, THEN conjunct2,
      THEN mp, OF r]
  from A have 1: "Dir (Dir (Dir ?p)) = ''.''" by (simp add: c)
  have 2: "pemWalk treeWorld ?p [] [] =
       Some (Inr [1, 2, 3],
         [ReadCert ''root/intermediate/leaf/leaf.pem'',
          ReadCert ''root/intermediate/intermediate.pem'',
          ReadCert ''root/root.pem''])"
    using F unfolding b by (simp add: c)
  have "p12Walk treeWorld ?p [] [] = pemWalk treeWorld ?p [] []"
    by (simp only: C D)
  with 1 2 c show ?thesis by simp
qed

text \<open>
  C6. Claimed: when the external-CA flag was not supplied, the orchestrator does not try to
  resolve an external-CA path and the archive encoder writes no \<^verbatim>\<open>ca.pem\<close> entry. The flag
  is registered with the default \<^verbatim>\<open>nilString\<close>, while \<^verbatim>\<open>exportCertificate\<close>, \<^verbatim>\<open>exportPEM\<close>
  and \<^verbatim>\<open>exportP12\<close> test \<^verbatim>\<open>flags.exportCA != ""\<close>. Evaluated: the command line
  \<^verbatim>\<open>export -export-crt root/intermediate/leaf\<close> leaves \<^verbatim>\<open>exportCA\<close> at \<^verbatim>\<open>nilString\<close>; the
  orchestrator then calls \<^verbatim>\<open>os.Stat\<close> on that marker and ends with "Failed to find ca
  certificate"; and where a file of that name exists, the archive export of the same
  target goes on with the marker as the CA path and writes a \<^verbatim>\<open>ca.pem\<close> entry.
\<close>

theorem unsupplied_ca_is_resolved:
  "parseExportFlags leafArgs = Inr (leafPEM\<lparr>exportCA := nilString, exportFormat := ''tgz''\<rparr>)
   \<and> exportCertificate treeWorld (leafPEM\<lparr>exportCA := nilString, exportFormat := ''tgz''\<rparr>) [] =
     Some (Inl (FailedToFindCA (StatError nilString)),
       [Info ''Exporting root/intermediate/leaf'', Stat nilString])
   \<and> exportCertificate sentinelWorld (leafPEM\<lparr>exportCA := nilString\<rparr>) [] =
     Some (Inr (),
       [Info ''Exporting root/intermediate/leaf'',
        Stat nilString,
        SinkOpen,
        ReadCert nilString,
        WriteData [9] ''leaf/ca.pem'' 420,
        ReadCert ''root/intermediate/leaf/leaf.pem'',
        ReadCert ''root/intermediate/intermediate.pem'',
        ReadCert ''root/root.pem'',
        WriteData [1, 2, 3] ''leaf/cert.pem'' 420,
        Info ''Finished Exporting Certificate root/intermediate/leaf'',
        SinkClose])"
  by code_simp

text \<open>
  C7. Claimed: every request is handled by exactly one of the two encoders, chosen by the
  format, matched case-insensitively. The switch of \<^verbatim>\<open>exportCertificate\<close> has the cases
  \<^verbatim>\<open>"pem"\<close> and \<^verbatim>\<open>"p12"\<close> and no default, while the flag is registered with the default
  \<^verbatim>\<open>"tgz"\<close> and the help text \<^verbatim>\<open>export format ("tgz" or "p12")\<close>. Evaluated: the command
  line \<^verbatim>\<open>export -export-crt -export-ca=ca root/intermediate/leaf\<close> has the format \<^verbatim>\<open>tgz\<close>;
  the export resolves the CA, opens the sink, runs no encoder, reports that it has
  finished and closes the sink: nothing is exported.
\<close>

theorem default_format_runs_no_encoder:
  "parseExportFlags (leafArgs\<lparr>argExportCA := Some ''ca''\<rparr>) =
     Inr (leafPEM\<lparr>exportCA := ''ca'', exportFormat := ''tgz''\<rparr>)
   \<and> exportCertificate treeWorld (leafPEM\<lparr>exportCA := ''ca'', exportFormat := ''tgz''\<rparr>) [] =
     Some (Inr (),
       [Info ''Exporting root/intermediate/leaf'',
        Stat ''ca'',
        Stat ''ca/ca.pem'',
        SinkOpen,
        Info ''Finished Exporting Certificate root/intermediate/leaf'',
        SinkClose])"
  by code_simp

text \<open>
  C8. Claimed: the resolver returns the path unchanged when it names a regular file. The
  code first replaces the path by \<^verbatim>\<open>filepath.Clean(path)\<close>: for the regular file
  \<^verbatim>\<open>./ca/ca.pem\<close> it returns \<^verbatim>\<open>ca/ca.pem\<close>.
\<close>

theorem findFile_cleans_file_path:
  "osStat treeWorld ''./ca/ca.pem'' = Some False
   \<and> findFile treeWorld ''./ca/ca.pem'' ''.pem'' [] = (Inr ''ca/ca.pem'', [Stat ''ca/ca.pem''])
   \<and> ''ca/ca.pem'' \<noteq> ''./ca/ca.pem''"
  by code_simp

text \<open>
  C8, amended. For every path and suffix the resolver works on the cleaned path
  \<^verbatim>\<open>Clean(path)\<close>: when that names a regular file it is returned (so a path that is already
  clean is returned unchanged); when it names a directory the result is
  \<^verbatim>\<open>Join(Clean(path), Base(Clean(path))+suffix)\<close>, provided that this exists and is not a
  directory, the structure error when it is a directory, and the error of \<^verbatim>\<open>os.Stat\<close> when
  the stat of either form fails. Resolving is idempotent: a path the resolver has returned
  resolves to itself, with any suffix.
\<close>

theorem findFile_resolves:
  "(osStat w (Clean p) = None \<longrightarrow> fst (findFile w p s tr) = Inl (StatError (Clean p)))
   \<and> (osStat w (Clean p) = Some False \<longrightarrow> fst (findFile w p s tr) = Inr (Clean p))
   \<and> (osStat w (Clean p) = Some True \<longrightarrow>
        fst (findFile w p s tr) =
          (case osStat w (Join [Clean p, Base (Clean p) @ s]) of
             None \<Rightarrow> Inl (StatError (Join [Clean p, Base (Clean p) @ s]))
           | Some isDir \<Rightarrow>
               if isDir then Inl (IsDirectory (Join [Clean p, Base (Clean p) @ s]))
               else Inr (Join [Clean p, Base (Clean p) @ s])))
   \<and> (\<forall>r. fst (findFile w p s tr) = Inr r \<longrightarrow> fst (findFile w r s' tr') = Inr r)"
proof (intro conjI allI impI)
  fix r
  assume a: "fst (findFile w p s tr) = Inr r"
  have "Clean r = r \<and> osStat w r = Some False"
  proof (cases "osStat w (Clean p)")
    case None
    with a show ?thesis by (simp add: findFile_def Let_def)
  next
    case (Some d)
    show ?thesis
    proof (cases d)
      case False
      with Some a show ?thesis by (auto simp: findFile_def Let_def Clean_idem)
    next
      case True
      with Some a show ?thesis
        using Join_two_clean [OF Clean_not_Nil, of p "Base (Clean p) @ s"]
        by (auto simp: findFile_def Let_def split: option.splits if_splits)
    qed
  qed
  then show "fst (findFile w r s' tr') = Inr r" by (simp add: findFile_def Let_def)
qed (auto simp: findFile_def Let_def split: option.splits)

theorem findFile_resolves_witness:
  "fst (findFile treeWorld ''./ca'' ''.pem'' []) = Inr ''ca/ca.pem''
   \<and> fst (findFile treeWorld ''ca/ca.pem'' ''.pem'' []) = Inr ''ca/ca.pem''
   \<and> fst (findFile treeWorld ''missing'' ''.pem'' []) = Inl (StatError ''missing'')"
proof -
  have c: "Clean ''./ca'' = ''ca''" "Clean ''missing'' = ''missing''" "Clean ''ca/ca.pem'' = ''ca/ca.pem''"
    by code_simp+
  have s: "osStat treeWorld ''ca'' = Some True" "osStat treeWorld ''missing'' = None"
    "osStat treeWorld ''ca/ca.pem'' = Some False"
    by code_simp+
  have j: "Join [''ca'', Base ''ca'' @ ''.pem''] = ''ca/ca.pem''" by code_simp
  have 1: "fst (findFile treeWorld ''./ca'' ''.pem'' []) = Inr ''ca/ca.pem''"
    using findFile_resolves [of treeWorld "''./ca''" "''.pem''" "[]"] c s j by simp
  have 2: "fst (findFile treeWorld ''ca/ca.pem'' ''.pem'' []) = Inr ''ca/ca.pem''"
    using findFile_resolves [of treeWorld "''./ca''" "''.pem''" "[]" "''.pem''" "[]"] 1 by simp
  have 3: "fst (findFile treeWorld ''missing'' ''.pem'' []) = Inl (StatError ''missing'')"
    using findFile_resolves [of treeWorld "''missing''" "''.pem''" "[]"] c s by simp
  from 1 2 3 show ?thesis by simp
qed

text \<open>
  C9. Claimed: in a P12 export with an external CA, the buffer written to the temporary
  file is the chain followed by the bytes of the certificate that the orchestrator
  resolved. The orchestrator replaces \<^verbatim>\<open>flags.exportCA\<close> by the resolved file; \<^verbatim>\<open>exportPEM\<close>
  reads that file, but \<^verbatim>\<open>exportP12\<close> reads
  \<^verbatim>\<open>Join(flags.exportCA, Base(flags.exportCA)+".pem")\<close>, a path below the resolved file.
  Evaluated with \<^verbatim>\<open>-export-ca=ca\<close>: the resolver returns \<^verbatim>\<open>ca/ca.pem\<close>, which is readable;
  the P12 export reads \<^verbatim>\<open>ca/ca.pem/ca.pem.pem\<close> instead, fails there, and writes no
  temporary file at all; the archive export of the same request reads \<^verbatim>\<open>ca/ca.pem\<close>.
\<close>

theorem exportP12_reads_wrong_ca_path:
  "findFile treeWorld ''ca'' ''.pem'' [] = (Inr ''ca/ca.pem'', [Stat ''ca'', Stat ''ca/ca.pem''])
   \<and> readCert treeWorld ''ca/ca.pem'' = Some [9]
   \<and> exportCertificate treeWorld (leafP12\<lparr>exportCA := ''ca''\<rparr>) [] =
     Some (Inl (CertReadError ''ca/ca.pem/ca.pem.pem''),
       [Info ''Exporting root/intermediate/leaf'',
        Stat ''ca'',
        Stat ''ca/ca.pem'',
        SinkOpen,
        Info ''Running openssl to create p12 file'',
        ReadCert ''root/intermediate/leaf/leaf.pem'',
        ReadCert ''root/intermediate/intermediate.pem'',
        ReadCert ''root/root.pem'',
        ReadCert ''ca/ca.pem/ca.pem.pem''])
   \<and> exportCertificate treeWorld (leafPEM\<lparr>exportCA := ''ca''\<rparr>) [] =
     Some (Inr (),
       [Info ''Exporting root/intermediate/leaf'',
        Stat ''ca'',
        Stat ''ca/ca.pem'',
        SinkOpen,
        ReadCert ''ca/ca.pem'',
        WriteData [9] ''leaf/ca.pem'' 420,
        ReadCert ''root/intermediate/leaf/leaf.pem'',
        ReadCert ''root/intermediate/intermediate.pem'',
        ReadCert ''root/root.pem'',
        WriteData [1, 2, 3] ''leaf/cert.pem'' 420,
        Info ''Finished Exporting Certificate root/intermediate/leaf'',
        SinkClose])"
  by code_simp



end
